theory Spec2Isabelle
  imports Complex_Main "HOL-Library.Word"
begin

unbundle bit_operations_syntax

section \<open>The supervisory control loop of src/main.cpp\<close>

text \<open>
  The firmware is one function, \<^verbatim>\<open>loop()\<close>, run once per tick. It reads the sensors into
  global variables, runs a \<^verbatim>\<open>switch\<close> over the static variable \<^verbatim>\<open>state\<close> (guards, then the
  state action of the case), reports, and polls the serial command channel.

  Conventions of the model:
  \<^item> \<^verbatim>\<open>uint8_t\<close> is \<open>8 word\<close>; a \<^verbatim>\<open>float\<close> variable holds a finite reading, given by its
    real value (NaN and infinite readings are not modelled); the guards only compare
    readings with constants, which is exact; the one arithmetic operation on floats, the
    subtraction in \<^verbatim>\<open>assist\<close>, rounds to single precision;
  \<^item> the program's globals and the commanded state of the collaborator objects
    (torque motor, drive motor, indicator) are the fields of one record, passed through
    every call and returned updated;
  \<^item> what the collaborators return during a tick is the tick's input;
  \<^item> the busy-wait \<^verbatim>\<open>while (!torque_motor->enableOperation());\<close> consumes the motor's
    replies; a tick that does not get a positive reply does not return (\<open>None\<close>).
\<close>

type_synonym u8 = "8 word"

subsection \<open>Constants\<close>

text \<open>The seven states (\<^verbatim>\<open>#define IDLE 0\<close> ... \<^verbatim>\<open>#define E_STOP 6\<close>).\<close>

definition IDLE :: u8 where [simp]: "IDLE = 0"
definition CALIB :: u8 where [simp]: "CALIB = 1"
definition MANUAL :: u8 where [simp]: "MANUAL = 2"
definition ASSIST :: u8 where [simp]: "ASSIST = 3"
definition AUTO :: u8 where [simp]: "AUTO = 4"
definition FALLEN :: u8 where [simp]: "FALLEN = 5"
definition E_STOP :: u8 where [simp]: "E_STOP = 6"

text \<open>User request bit flags.\<close>

definition R_CALIB :: u8 where [simp]: "R_CALIB = 1"
definition R_MANUAL :: u8 where [simp]: "R_MANUAL = 2"
definition R_STOP :: u8 where [simp]: "R_STOP = 4"
definition R_RESUME :: u8 where [simp]: "R_RESUME = 8"

text \<open>State transition constants. \<^verbatim>\<open>PI\<close> comes from the Arduino core; it is taken as \<open>pi\<close>.\<close>

definition FTHRESH :: real where "FTHRESH = pi / 4.0"
definition UTHRESH :: real where "UTHRESH = pi / 20.0"
definition HIGH_V_THRESH :: real where "HIGH_V_THRESH = 2.5"
definition LOW_V_THRESH :: real where "LOW_V_THRESH = 2.0"

subsection \<open>Single-precision subtraction\<close>

text \<open>
  The value of a float expression: finite, or an infinity when the result leaves the
  finite range of binary32.
\<close>

datatype float32 = Finite real | PlusInf | MinusInf

text \<open>Powers of two with an integer exponent.\<close>

definition pow2 :: "int \<Rightarrow> real" where
  "pow2 e = (if 0 \<le> e then 2 ^ nat e else inverse (2 ^ nat (- e)))"

text \<open>
  The binade of a magnitude: the largest exponent \<open>e\<close> from 127 down to -126 with
  \<open>pow2 e \<le> x\<close>, and -126 when there is none (the subnormal range).
\<close>

fun binade :: "nat \<Rightarrow> int \<Rightarrow> real \<Rightarrow> int" where
  "binade 0 e x = e"
| "binade (Suc n) e x = (if pow2 e \<le> x then e else binade n (e - 1) x)"

definition exponent32 :: "real \<Rightarrow> int" where
  "exponent32 x = binade 253 127 \<bar>x\<bar>"

text \<open>Rounding to the nearest integer, ties to the even one.\<close>

definition round_half_even :: "real \<Rightarrow> int" where
  "round_half_even y =
     (let f = \<lfloor>y\<rfloor>; d = y - of_int f
      in if d < 1 / 2 then f else if 1 / 2 < d then f + 1 else if even f then f else f + 1)"

text \<open>
  Rounding a real to binary32, to nearest with ties to even (the IEEE 754 default, which
  the compiler's float arithmetic follows): the 24-bit significand gives the spacing
  \<open>pow2 (e - 23)\<close> in the binade \<open>e\<close>, and never less than \<open>pow2 (- 149)\<close>; a result of
  magnitude \<open>pow2 128\<close> or more is an infinity.
\<close>

definition round32 :: "real \<Rightarrow> float32" where
  "round32 x =
     (let q = max (exponent32 x - 23) (- 149);
          r = of_int (round_half_even (x / pow2 q)) * pow2 q
      in if pow2 128 \<le> r then PlusInf else if r \<le> - pow2 128 then MinusInf else Finite r)"

text \<open>The \<^verbatim>\<open>-\<close> of two \<^verbatim>\<open>float\<close> operands: the exact difference, rounded.\<close>

definition fsub32 :: "real \<Rightarrow> real \<Rightarrow> float32" where
  "fsub32 a b = round32 (a - b)"

subsection \<open>Data\<close>

text \<open>
  The operation modes that \<^verbatim>\<open>loop()\<close> passes to \<^verbatim>\<open>setMode\<close>. The state actions; the
  record below logs which of them were entered.
\<close>

datatype op_mode = OP_PROFILE_POSITION | OP_PROFILE_TORQUE

datatype action =
  Call_idle | Call_calibrate | Call_manual | Call_assist | Call_automatic
  | Call_fallen | Call_emergency_stop

type_synonym rgb = "nat \<times> nat \<times> nat"

text \<open>One line of \<^verbatim>\<open>report\<close>: state, phi, del, dphi, ddel, v, torque.\<close>

type_synonym report_line = "u8 \<times> real \<times> real \<times> real \<times> real \<times> real \<times> real"

record sys =
  state :: u8
  user_req :: u8
  phi :: real
  del :: real
  dphi :: real
  ddel :: real
  v :: real
  phi_r :: real
  del_r :: real
  v_r :: real
  torque :: real
  auto_t0 :: "int option"
  tm_mode :: op_mode
  tm_position :: float32
  tm_torque :: real
  tm_replies :: "bool list"
  dm_speed :: real
  ind_passive :: rgb
  ind_blink :: rgb
  ind_pulse :: "(nat \<times> nat) option"
  ind_beeps :: "u8 list"
  calls :: "action list"
  reports :: "report_line list"

text \<open>
  What one tick reads from outside: the sensor values as the six assignments at the
  top of \<^verbatim>\<open>loop()\<close> compute them (\<open>in_phi\<close> is the value of
  \<^verbatim>\<open>atan2(imu.accelY(), imu.accelZ())\<close>), the two calibration results, the value the
  stability controller returns, the clock, and the serial channel: \<open>None\<close> when
  \<^verbatim>\<open>TELEMETRY.available()\<close> is zero, otherwise the byte \<^verbatim>\<open>TELEMETRY.read()\<close> returns, the
  number \<^verbatim>\<open>Serial.parseFloat()\<close> would return and the value \<^verbatim>\<open>Serial.read()\<close> would return.
\<close>

record tick_in =
  in_phi :: real
  in_dphi :: real
  in_del :: real
  in_ddel :: real
  in_torque :: real
  in_v :: real
  in_gyro_ok :: bool
  in_accel_ok :: bool
  in_control :: real
  in_millis :: int
  in_serial :: "(u8 \<times> real \<times> int) option"

subsection \<open>Collaborators\<close>

text \<open>
  The classes \<^verbatim>\<open>Indicator\<close>, \<^verbatim>\<open>TorqueMotor\<close> and \<^verbatim>\<open>DriveMotor\<close> are libraries outside src/.
  Section 6 of the spec lists their setters; each one is modelled as storing its argument
  in the field that stands for the object's commanded state, and nothing else.
  \<^verbatim>\<open>update()\<close> of the IMU, the torque motor and the indicator refresh cached readings and
  change none of these fields.
\<close>

text \<open>Modelled from the spec: \<^verbatim>\<open>Indicator::setPassiveRGB\<close> (outside src/) stores the passive colour.\<close>

definition setPassiveRGB :: "nat \<Rightarrow> nat \<Rightarrow> nat \<Rightarrow> sys \<Rightarrow> sys" where
  "setPassiveRGB r g b s = s\<lparr>ind_passive := (r, g, b)\<rparr>"

text \<open>Modelled from the spec: \<^verbatim>\<open>Indicator::setBlinkRGB\<close> (outside src/) stores the blink colour.\<close>

definition setBlinkRGB :: "nat \<Rightarrow> nat \<Rightarrow> nat \<Rightarrow> sys \<Rightarrow> sys" where
  "setBlinkRGB r g b s = s\<lparr>ind_blink := (r, g, b)\<rparr>"

text \<open>Modelled from the spec: \<^verbatim>\<open>Indicator::setPulse\<close> (outside src/) arms the pulse with its two
  durations.\<close>

definition setPulse :: "nat \<Rightarrow> nat \<Rightarrow> sys \<Rightarrow> sys" where
  "setPulse on off s = s\<lparr>ind_pulse := Some (on, off)\<rparr>"

text \<open>Modelled from the spec: \<^verbatim>\<open>Indicator::disablePulse\<close> (outside src/) clears the pulse.\<close>

definition disablePulse :: "sys \<Rightarrow> sys" where
  "disablePulse s = s\<lparr>ind_pulse := None\<rparr>"

text \<open>Modelled from the spec: \<^verbatim>\<open>Indicator::beepstring\<close> (outside src/) emits a beep pattern; the
  patterns emitted are kept in order.\<close>

definition beepstring :: "u8 \<Rightarrow> sys \<Rightarrow> sys" where
  "beepstring p s = s\<lparr>ind_beeps := ind_beeps s @ [p]\<rparr>"

text \<open>Modelled from the spec: \<^verbatim>\<open>TorqueMotor::setMode\<close> (outside src/) selects the operating mode.\<close>

definition setMode :: "op_mode \<Rightarrow> sys \<Rightarrow> sys" where
  "setMode m s = s\<lparr>tm_mode := m\<rparr>"

text \<open>Modelled from the spec: \<^verbatim>\<open>TorqueMotor::setPosition\<close> (outside src/) commands the position
  setpoint.\<close>

definition setPosition :: "float32 \<Rightarrow> sys \<Rightarrow> sys" where
  "setPosition x s = s\<lparr>tm_position := x\<rparr>"

text \<open>Modelled from the spec: \<^verbatim>\<open>TorqueMotor::setTorque\<close> (outside src/) commands the torque.\<close>

definition setTorque :: "real \<Rightarrow> sys \<Rightarrow> sys" where
  "setTorque u s = s\<lparr>tm_torque := u\<rparr>"

text \<open>Modelled from the spec: \<^verbatim>\<open>DriveMotor::setSpeed\<close> (outside src/) commands the drive speed.\<close>

definition setSpeed :: "real \<Rightarrow> sys \<Rightarrow> sys" where
  "setSpeed x s = s\<lparr>dm_speed := x\<rparr>"

text \<open>
  Modelled from the spec: \<^verbatim>\<open>TorqueMotor::enableOperation\<close> (outside src/) returns whether the
  motor has confirmed the mode; the source polls it in
  \<^verbatim>\<open>while (!torque_motor->enableOperation());\<close> The replies the motor will give to the
  successive calls are \<open>tm_replies\<close>. The loop drops replies up to the first \<open>True\<close>; when
  there is none the loop does not end, which is the value \<open>None\<close>.
\<close>

fun wait_enable :: "bool list \<Rightarrow> bool list option" where
  "wait_enable [] = None"
| "wait_enable (b # bs) = (if b then Some bs else wait_enable bs)"

definition enableOperation_wait :: "sys \<Rightarrow> sys option" where
  "enableOperation_wait s =
     (case wait_enable (tm_replies s) of
        None \<Rightarrow> None
      | Some bs \<Rightarrow> Some (s\<lparr>tm_replies := bs\<rparr>))"

subsection \<open>State actions\<close>

definition idle :: "sys \<Rightarrow> sys" where
  "idle s = s\<lparr>calls := calls s @ [Call_idle]\<rparr>"

definition calibrate :: "tick_in \<Rightarrow> sys \<Rightarrow> sys" where
  "calibrate i s =
     (let s0 = s\<lparr>calls := calls s @ [Call_calibrate]\<rparr>;
          s1 = (if in_gyro_ok i then beepstring 0x77 s0 else beepstring 0x88 s0);
          s2 = (if in_accel_ok i then beepstring 0xAA s1 else beepstring 0x33 s1)
      in s2)"

definition manual :: "sys \<Rightarrow> sys" where
  "manual s = s\<lparr>calls := calls s @ [Call_manual]\<rparr>"

definition assist :: "sys \<Rightarrow> sys" where
  "assist s =
     (let s0 = s\<lparr>calls := calls s @ [Call_assist]\<rparr>;
          er = fsub32 (del s0) (del_r s0)
      in setPosition er s0)"

text \<open>
  \<^verbatim>\<open>automatic\<close> keeps the time of its previous call in a static variable, initialised at
  the first call, and passes the difference to the controller. The controller is a library
  outside src/: the torque it returns is the tick's input \<open>in_control\<close>.
\<close>

definition automatic :: "tick_in \<Rightarrow> sys \<Rightarrow> sys" where
  "automatic i s =
     (let s0 = s\<lparr>calls := calls s @ [Call_automatic]\<rparr>;
          s1 = s0\<lparr>auto_t0 := Some (in_millis i)\<rparr>
      in setTorque (in_control i) s1)"

definition fallen :: "sys \<Rightarrow> sys" where
  "fallen s = s\<lparr>calls := calls s @ [Call_fallen]\<rparr>"

definition emergency_stop :: "sys \<Rightarrow> sys" where
  "emergency_stop s = s\<lparr>calls := calls s @ [Call_emergency_stop]\<rparr>"

definition report :: "u8 \<Rightarrow> sys \<Rightarrow> sys" where
  "report st s =
     s\<lparr>reports := reports s @ [(st, phi s, del s, dphi s, ddel s, v s, torque s)]\<rparr>"

subsection \<open>The guarded blocks of the switch\<close>

text \<open>
  Every \<^verbatim>\<open>if\<close> of a case is a block of its own, in the order of the source: there is no
  \<^verbatim>\<open>else\<close>, so each guard is evaluated on the state the blocks before it left.
\<close>

definition to_fallen :: "sys \<Rightarrow> sys" where
  "to_fallen s =
     (if \<bar>phi s\<bar> > FTHRESH
      then setPulse 500 1500 (setBlinkRGB 255 0 0 (setPassiveRGB 255 140 0 (s\<lparr>state := FALLEN\<rparr>)))
      else s)"

definition idle_to_assist :: "sys \<Rightarrow> sys option" where
  "idle_to_assist s =
     (if v s > 1.0
      then (case enableOperation_wait (setMode OP_PROFILE_POSITION (s\<lparr>state := ASSIST\<rparr>)) of
              None \<Rightarrow> None
            | Some s1 \<Rightarrow> Some (setBlinkRGB 140 34 140 (setPassiveRGB 34 139 34 s1)))
      else Some s)"

definition idle_to_calib :: "sys \<Rightarrow> sys" where
  "idle_to_calib s =
     (if user_req s AND R_CALIB \<noteq> 0
      then setPulse 250 250 (setBlinkRGB 128 255 128 (setPassiveRGB 128 0 128 (s\<lparr>state := CALIB\<rparr>)))
      else s)"

definition idle_to_manual :: "sys \<Rightarrow> sys option" where
  "idle_to_manual s =
     (if user_req s AND R_MANUAL \<noteq> 0
      then enableOperation_wait
             (setMode OP_PROFILE_POSITION
               (setBlinkRGB 0 89 255 (setPassiveRGB 255 165 0 (s\<lparr>state := MANUAL\<rparr>))))
      else Some s)"

definition calib_to_idle :: "sys \<Rightarrow> sys" where
  "calib_to_idle s =
     setBlinkRGB 0 0 255 (setPassiveRGB 255 255 0 (disablePulse
       (s\<lparr>user_req := user_req s AND NOT R_CALIB, state := IDLE\<rparr>)))"

definition manual_to_idle :: "sys \<Rightarrow> sys" where
  "manual_to_idle s =
     (if user_req s AND R_RESUME \<noteq> 0
      then setBlinkRGB 0 0 255 (setPassiveRGB 255 255 0
             (s\<lparr>user_req := user_req s AND NOT (R_RESUME OR R_MANUAL), state := IDLE\<rparr>))
      else s)"

definition assist_to_auto :: "sys \<Rightarrow> sys option" where
  "assist_to_auto s =
     (if v s > HIGH_V_THRESH
      then (case enableOperation_wait (setMode OP_PROFILE_TORQUE (s\<lparr>state := AUTO\<rparr>)) of
              None \<Rightarrow> None
            | Some s1 \<Rightarrow> Some (setBlinkRGB 255 0 255 (setPassiveRGB 0 255 0 s1)))
      else Some s)"

definition assist_to_idle :: "sys \<Rightarrow> sys" where
  "assist_to_idle s =
     (if v s < 0.5
      then setBlinkRGB 0 0 255 (setPassiveRGB 255 255 0 (s\<lparr>state := IDLE\<rparr>))
      else s)"

definition to_e_stop :: "sys \<Rightarrow> sys" where
  "to_e_stop s =
     (if user_req s AND R_STOP \<noteq> 0
      then setBlinkRGB 0 0 255 (setPassiveRGB 255 0 0 (setSpeed 0 (s\<lparr>state := E_STOP\<rparr>)))
      else s)"

definition auto_to_assist :: "sys \<Rightarrow> sys option" where
  "auto_to_assist s =
     (if v s < LOW_V_THRESH
      then (case enableOperation_wait (setMode OP_PROFILE_POSITION (s\<lparr>state := ASSIST\<rparr>)) of
              None \<Rightarrow> None
            | Some s1 \<Rightarrow> Some (setBlinkRGB 140 34 140 (setPassiveRGB 34 139 34 s1)))
      else Some s)"

definition fallen_to_idle :: "sys \<Rightarrow> sys" where
  "fallen_to_idle s =
     (if \<bar>phi s\<bar> < UTHRESH
      then disablePulse (setBlinkRGB 0 0 255 (setPassiveRGB 255 255 0 (s\<lparr>state := IDLE\<rparr>)))
      else s)"

definition e_stop_to_idle :: "sys \<Rightarrow> sys" where
  "e_stop_to_idle s =
     (if user_req s AND R_RESUME \<noteq> 0
      then setBlinkRGB 0 0 255 (setPassiveRGB 255 255 0
             (s\<lparr>user_req := user_req s AND NOT (R_RESUME OR R_STOP), state := IDLE\<rparr>))
      else s)"

subsection \<open>The cases of the switch: guards, then the action of the case\<close>

definition case_IDLE :: "sys \<Rightarrow> sys option" where
  "case_IDLE s =
     (case idle_to_assist (to_fallen s) of
        None \<Rightarrow> None
      | Some s2 \<Rightarrow>
         (case idle_to_manual (idle_to_calib s2) of
            None \<Rightarrow> None
          | Some s4 \<Rightarrow> Some (idle s4)))"

definition case_CALIB :: "tick_in \<Rightarrow> sys \<Rightarrow> sys option" where
  "case_CALIB i s = Some (calibrate i (calib_to_idle s))"

definition case_MANUAL :: "sys \<Rightarrow> sys option" where
  "case_MANUAL s = Some (manual (manual_to_idle s))"

definition case_ASSIST :: "sys \<Rightarrow> sys option" where
  "case_ASSIST s =
     (case assist_to_auto (to_fallen s) of
        None \<Rightarrow> None
      | Some s2 \<Rightarrow> Some (assist (to_e_stop (assist_to_idle s2))))"

definition case_AUTO :: "tick_in \<Rightarrow> sys \<Rightarrow> sys option" where
  "case_AUTO i s =
     (case auto_to_assist (to_fallen s) of
        None \<Rightarrow> None
      | Some s2 \<Rightarrow> Some (automatic i (to_e_stop s2)))"

definition case_FALLEN :: "sys \<Rightarrow> sys option" where
  "case_FALLEN s = Some (fallen (fallen_to_idle s))"

definition case_E_STOP :: "sys \<Rightarrow> sys option" where
  "case_E_STOP s = Some (emergency_stop (e_stop_to_idle (to_fallen s)))"

definition case_default :: "sys \<Rightarrow> sys option" where
  "case_default s = Some (setPassiveRGB 0 0 0 s)"

definition state_switch :: "tick_in \<Rightarrow> sys \<Rightarrow> sys option" where
  "state_switch i s =
     (if state s = IDLE then case_IDLE s
      else if state s = CALIB then case_CALIB i s
      else if state s = MANUAL then case_MANUAL s
      else if state s = ASSIST then case_ASSIST s
      else if state s = AUTO then case_AUTO i s
      else if state s = FALLEN then case_FALLEN s
      else if state s = E_STOP then case_E_STOP s
      else case_default s)"

subsection \<open>The tick\<close>

text \<open>The six assignments "Update state variables" at the top of \<^verbatim>\<open>loop()\<close>.\<close>

definition update_state_variables :: "tick_in \<Rightarrow> sys \<Rightarrow> sys" where
  "update_state_variables i s =
     s\<lparr>phi := in_phi i, dphi := in_dphi i, del := in_del i, ddel := in_ddel i,
       torque := in_torque i, v := in_v i\<rparr>"

text \<open>
  The serial command channel (\<^verbatim>\<open>RADIOCOMM\<close> is not defined, so the \<^verbatim>\<open>#else\<close> branch is the
  code): \<^verbatim>\<open>'s'\<close> is 115, \<^verbatim>\<open>'d'\<close> is 100, \<^verbatim>\<open>'c'\<close> is 99. \<^verbatim>\<open>user_req |= Serial.read()\<close>
  keeps the low eight bits of the \<^verbatim>\<open>int\<close> that is read.
\<close>

definition poll_commands :: "tick_in \<Rightarrow> sys \<Rightarrow> sys" where
  "poll_commands i s =
     (case in_serial i of
        None \<Rightarrow> s
      | Some (c, f, b) \<Rightarrow>
          if c = 115 then setSpeed f (s\<lparr>v_r := f\<rparr>)
          else if c = 100 then s\<lparr>del_r := f\<rparr>
          else if c = 99 then s\<lparr>user_req := user_req s OR word_of_int b\<rparr>
          else s)"

definition loop :: "tick_in \<Rightarrow> sys \<Rightarrow> sys option" where
  "loop i s =
     (case state_switch i (update_state_variables i s) of
        None \<Rightarrow> None
      | Some s1 \<Rightarrow> Some (poll_commands i (report (state s1) s1)))"

text \<open>Successive ticks; a tick that does not return ends the run.\<close>

fun run :: "tick_in list \<Rightarrow> sys \<Rightarrow> sys option" where
  "run [] s = Some s"
| "run (i # ins) s = (case loop i s of None \<Rightarrow> None | Some s1 \<Rightarrow> run ins s1)"

subsection \<open>Notions used by the properties\<close>

text \<open>The state action that belongs to a state value: the call under its case label.\<close>

definition action_of :: "u8 \<Rightarrow> action option" where
  "action_of st =
     (if st = IDLE then Some Call_idle
      else if st = CALIB then Some Call_calibrate
      else if st = MANUAL then Some Call_manual
      else if st = ASSIST then Some Call_assist
      else if st = AUTO then Some Call_automatic
      else if st = FALLEN then Some Call_fallen
      else if st = E_STOP then Some Call_emergency_stop
      else None)"

text \<open>
  The actuator mode that each state requires: position tracking in Assisted and Manual,
  torque tracking in Autonomous.
\<close>

definition mode_invariant :: "sys \<Rightarrow> bool" where
  "mode_invariant s \<longleftrightarrow>
     ((state s = ASSIST \<or> state s = MANUAL) \<longrightarrow> tm_mode s = OP_PROFILE_POSITION)
     \<and> (state s = AUTO \<longrightarrow> tm_mode s = OP_PROFILE_TORQUE)"

text \<open>The request bit that led into a state is still set while the state lasts.\<close>

definition requests_held :: "sys \<Rightarrow> bool" where
  "requests_held s \<longleftrightarrow>
     (state s = CALIB \<longrightarrow> user_req s AND R_CALIB \<noteq> 0)
     \<and> (state s = MANUAL \<longrightarrow> user_req s AND R_MANUAL \<noteq> 0)
     \<and> (state s = E_STOP \<longrightarrow> user_req s AND R_STOP \<noteq> 0)"

text \<open>
  The program after \<^verbatim>\<open>setup()\<close>: the initialisers of the globals and of the static \<^verbatim>\<open>state\<close>,
  and the idle colours that \<^verbatim>\<open>setup()\<close> selects last. What the motors and the rest of the
  indicator hold at that moment is left open.
\<close>

definition startup :: "sys \<Rightarrow> bool" where
  "startup s \<longleftrightarrow>
     state s = IDLE \<and> user_req s = 0 \<and> phi s = 0 \<and> del s = 0 \<and> dphi s = 0 \<and> ddel s = 0
     \<and> v s = 0 \<and> phi_r s = 0 \<and> del_r s = 0 \<and> v_r s = 0 \<and> torque s = 0 \<and> auto_t0 s = None
     \<and> ind_passive s = (255, 255, 0) \<and> ind_blink s = (0, 0, 255)"

text \<open>
  A concrete start: the torque motor happens to be in torque mode and answers the first
  poll of \<^verbatim>\<open>enableOperation\<close> with false, the following ones with true. And a tick in which
  every sensor reads zero and no byte is waiting on the serial line.
\<close>

definition power_on :: sys where
  "power_on =
     \<lparr>state = IDLE, user_req = 0, phi = 0, del = 0, dphi = 0, ddel = 0, v = 0,
      phi_r = 0, del_r = 0, v_r = 0, torque = 0, auto_t0 = None,
      tm_mode = OP_PROFILE_TORQUE, tm_position = Finite 0, tm_torque = 0,
      tm_replies = [False, True, True, True], dm_speed = 0,
      ind_passive = (255, 255, 0), ind_blink = (0, 0, 255), ind_pulse = None,
      ind_beeps = [], calls = [], reports = []\<rparr>"

definition quiet :: tick_in where
  "quiet =
     \<lparr>in_phi = 0, in_dphi = 0, in_del = 0, in_ddel = 0, in_torque = 0, in_v = 0,
      in_gyro_ok = True, in_accel_ok = True, in_control = 0, in_millis = 0,
      in_serial = None\<rparr>"

section \<open>Auxiliary facts\<close>

lemmas collab_defs = setPassiveRGB_def setBlinkRGB_def setPulse_def disablePulse_def
  beepstring_def setMode_def setPosition_def setTorque_def setSpeed_def enableOperation_wait_def

lemmas action_defs = idle_def calibrate_def manual_def assist_def automatic_def fallen_def
  emergency_stop_def

lemmas block_defs = to_fallen_def idle_to_assist_def idle_to_calib_def idle_to_manual_def
  calib_to_idle_def manual_to_idle_def assist_to_auto_def assist_to_idle_def to_e_stop_def
  auto_to_assist_def fallen_to_idle_def e_stop_to_idle_def

lemmas case_defs = case_IDLE_def case_CALIB_def case_MANUAL_def case_ASSIST_def case_AUTO_def
  case_FALLEN_def case_E_STOP_def case_default_def

lemmas tick_defs = loop_def state_switch_def update_state_variables_def report_def
  poll_commands_def case_defs block_defs action_defs collab_defs HIGH_V_THRESH_def
  LOW_V_THRESH_def Let_def

subsection \<open>Thresholds and request bits\<close>

lemma FTHRESH_pos: "0 < FTHRESH"
  by (simp add: FTHRESH_def)

lemma FTHRESH_less_1: "FTHRESH < 1"
  using pi_less_4 by (simp add: FTHRESH_def)

lemma FTHRESH_not_neg: "\<not> FTHRESH < 0"
  by (simp add: FTHRESH_def)

lemma UTHRESH_pos: "0 < UTHRESH"
  by (simp add: UTHRESH_def)

lemma UTHRESH_not_above_1: "\<not> 1 < UTHRESH"
  using pi_less_4 by (simp add: UTHRESH_def)

lemmas threshold_facts = FTHRESH_pos FTHRESH_less_1 FTHRESH_not_neg UTHRESH_pos
  UTHRESH_not_above_1

text \<open>Testing a request flag is testing one bit.\<close>

lemma req_bit:
  "((x::u8) AND 1 = 0) = (\<not> bit x 0)"
  "((x::u8) AND 2 = 0) = (\<not> bit x 1)"
  "((x::u8) AND 4 = 0) = (\<not> bit x 2)"
  "((x::u8) AND 8 = 0) = (\<not> bit x 3)"
  using and_exp_eq_0_iff_not_bit [of x 0] and_exp_eq_0_iff_not_bit [of x 1]
    and_exp_eq_0_iff_not_bit [of x 2] and_exp_eq_0_iff_not_bit [of x 3]
  by simp_all

lemma cleared_resume_stop:
  "((x::u8) AND NOT (R_RESUME OR R_STOP)) AND R_RESUME = 0"
  "((x::u8) AND NOT (R_RESUME OR R_STOP)) AND R_STOP = 0"
  by (simp_all add: req_bit bit_simps)

lemma cleared_calib: "((x::u8) AND NOT R_CALIB) AND R_CALIB = 0"
  by (simp add: req_bit bit_simps)

lemma invalid_state_neq:
  "E_STOP < (x::u8) \<Longrightarrow>
   x \<noteq> 0 \<and> x \<noteq> 1 \<and> x \<noteq> 2 \<and> x \<noteq> 3 \<and> x \<noteq> 4 \<and> x \<noteq> 5 \<and> x \<noteq> 6"
  by auto

subsection \<open>What the stages of a tick leave alone\<close>

lemma poll_commands_frame [simp]:
  "state (poll_commands i s) = state s"
  "tm_mode (poll_commands i s) = tm_mode s"
  "tm_position (poll_commands i s) = tm_position s"
  "tm_torque (poll_commands i s) = tm_torque s"
  "calls (poll_commands i s) = calls s"
  "ind_passive (poll_commands i s) = ind_passive s"
  "ind_blink (poll_commands i s) = ind_blink s"
  "ind_pulse (poll_commands i s) = ind_pulse s"
  by (simp_all add: poll_commands_def setSpeed_def split: option.splits prod.splits)

lemma report_frame [simp]:
  "state (report st s) = state s"
  "user_req (report st s) = user_req s"
  "tm_mode (report st s) = tm_mode s"
  "tm_position (report st s) = tm_position s"
  "tm_torque (report st s) = tm_torque s"
  "dm_speed (report st s) = dm_speed s"
  "calls (report st s) = calls s"
  "ind_passive (report st s) = ind_passive s"
  "ind_blink (report st s) = ind_blink s"
  "ind_pulse (report st s) = ind_pulse s"
  by (simp_all add: report_def)

lemma update_state_variables_frame [simp]:
  "state (update_state_variables i s) = state s"
  "user_req (update_state_variables i s) = user_req s"
  "tm_mode (update_state_variables i s) = tm_mode s"
  "tm_position (update_state_variables i s) = tm_position s"
  "tm_torque (update_state_variables i s) = tm_torque s"
  "tm_replies (update_state_variables i s) = tm_replies s"
  "dm_speed (update_state_variables i s) = dm_speed s"
  "calls (update_state_variables i s) = calls s"
  "del_r (update_state_variables i s) = del_r s"
  "ind_passive (update_state_variables i s) = ind_passive s"
  "ind_blink (update_state_variables i s) = ind_blink s"
  "ind_pulse (update_state_variables i s) = ind_pulse s"
  "phi (update_state_variables i s) = in_phi i"
  "v (update_state_variables i s) = in_v i"
  "del (update_state_variables i s) = in_del i"
  by (simp_all add: update_state_variables_def)

lemma poll_commands_no_serial: "in_serial i = None \<Longrightarrow> poll_commands i s = s"
  by (simp add: poll_commands_def)

text \<open>The command poll only ever sets request bits.\<close>

lemma poll_commands_user_req: "\<exists>x. user_req (poll_commands i s) = user_req s OR x"
proof (cases "in_serial i")
  case None
  then have "user_req (poll_commands i s) = user_req s OR 0"
    by (simp add: poll_commands_def)
  then show ?thesis by blast
next
  case (Some t)
  obtain c f b where t: "t = (c, f, b)" by (cases t)
  show ?thesis
  proof (cases "c = 99")
    case True
    with Some t have "user_req (poll_commands i s) = user_req s OR word_of_int b"
      by (simp add: poll_commands_def)
    then show ?thesis by blast
  next
    case False
    with Some t have "user_req (poll_commands i s) = user_req s OR 0"
      by (simp add: poll_commands_def setSpeed_def)
    then show ?thesis by blast
  qed
qed

lemma poll_commands_keeps_bits:
  "bit (user_req s) n \<Longrightarrow> bit (user_req (poll_commands i s)) n"
  using poll_commands_user_req [of i s] by (auto simp: bit_simps)

lemma loop_Some:
  "loop i s = Some s' \<longleftrightarrow>
     (\<exists>s1. state_switch i (update_state_variables i s) = Some s1
           \<and> s' = poll_commands i (report (state s1) s1))"
  by (auto simp: loop_def split: option.splits)

subsection \<open>The switch, case by case\<close>

lemma switch_calls:
  "state_switch i s = Some s1 \<Longrightarrow>
   calls s1 = calls s @ (case action_of (state s) of None \<Rightarrow> [] | Some a \<Rightarrow> [a])"
  unfolding state_switch_def action_of_def
  by (auto simp: case_defs block_defs action_defs collab_defs Let_def
      split: if_splits option.splits)

lemma loop_calls:
  assumes "loop i s = Some s'"
  shows "calls s' = calls s @ (case action_of (state s) of None \<Rightarrow> [] | Some a \<Rightarrow> [a])"
proof -
  from assms obtain s1 where sw: "state_switch i (update_state_variables i s) = Some s1"
    and s': "s' = poll_commands i (report (state s1) s1)"
    by (auto simp: loop_Some)
  from switch_calls [OF sw] s' show ?thesis by simp
qed

lemma switch_mode_invariant:
  "mode_invariant s \<Longrightarrow> state_switch i s = Some s' \<Longrightarrow> mode_invariant s'"
  unfolding mode_invariant_def state_switch_def
  by (auto simp: case_defs block_defs action_defs collab_defs Let_def
      split: option.splits if_splits)

lemma loop_mode_invariant:
  assumes "mode_invariant s" and "loop i s = Some s'"
  shows "mode_invariant s'"
proof -
  from assms(2) obtain s1 where sw: "state_switch i (update_state_variables i s) = Some s1"
    and s': "s' = poll_commands i (report (state s1) s1)"
    by (auto simp: loop_Some)
  from assms(1) have "mode_invariant (update_state_variables i s)"
    by (simp add: mode_invariant_def)
  from switch_mode_invariant [OF this sw] have "mode_invariant s1" .
  with s' show ?thesis by (simp add: mode_invariant_def)
qed

lemma run_mode_invariant:
  "mode_invariant s \<Longrightarrow> run ins s = Some s' \<Longrightarrow> mode_invariant s'"
proof (induction ins arbitrary: s)
  case Nil
  then show ?case by simp
next
  case (Cons i ins)
  from Cons.prems(2) obtain s1 where l: "loop i s = Some s1" and r: "run ins s1 = Some s'"
    by (auto split: option.splits)
  from loop_mode_invariant [OF Cons.prems(1) l] have "mode_invariant s1" .
  from Cons.IH [OF this r] show ?case .
qed

lemma loop_invalid_state:
  assumes "E_STOP < state s"
  shows "loop i s =
     Some (poll_commands i (report (state s) (setPassiveRGB 0 0 0 (update_state_variables i s))))"
  using invalid_state_neq [OF assms]
  by (simp add: loop_def state_switch_def case_default_def setPassiveRGB_def)

lemma run_invalid_state:
  "E_STOP < state s \<Longrightarrow>
   \<exists>s'. run ins s = Some s' \<and> state s' = state s \<and> calls s' = calls s
        \<and> tm_mode s' = tm_mode s \<and> tm_position s' = tm_position s
        \<and> tm_torque s' = tm_torque s \<and> ind_blink s' = ind_blink s
        \<and> ind_pulse s' = ind_pulse s
        \<and> (ins \<noteq> [] \<longrightarrow> ind_passive s' = (0, 0, 0))"
proof (induction ins arbitrary: s)
  case Nil
  then show ?case by simp
next
  case (Cons i ins)
  let ?s1 = "poll_commands i (report (state s) (setPassiveRGB 0 0 0 (update_state_variables i s)))"
  have l: "loop i s = Some ?s1" using loop_invalid_state [OF Cons.prems] .
  have f: "state ?s1 = state s" "calls ?s1 = calls s" "tm_mode ?s1 = tm_mode s"
    "tm_position ?s1 = tm_position s" "tm_torque ?s1 = tm_torque s"
    "ind_blink ?s1 = ind_blink s" "ind_pulse ?s1 = ind_pulse s" "ind_passive ?s1 = (0, 0, 0)"
    by (simp_all add: setPassiveRGB_def)
  from Cons.prems f(1) have "E_STOP < state ?s1" by simp
  from Cons.IH [OF this] obtain s' where r: "run ins ?s1 = Some s'"
    and g: "state s' = state ?s1" "calls s' = calls ?s1" "tm_mode s' = tm_mode ?s1"
      "tm_position s' = tm_position ?s1" "tm_torque s' = tm_torque ?s1"
      "ind_blink s' = ind_blink ?s1" "ind_pulse s' = ind_pulse ?s1"
      "ins \<noteq> [] \<longrightarrow> ind_passive s' = (0, 0, 0)"
    by blast
  have p: "ind_passive s' = (0, 0, 0)"
  proof (cases ins)
    case Nil
    with r f(8) show ?thesis by simp
  next
    case (Cons a list)
    with g(8) show ?thesis by simp
  qed
  from l r have "run (i # ins) s = Some s'" by simp
  with f g p show ?case by simp
qed

lemma switch_e_stop_resume:
  assumes "state s = E_STOP" and "user_req s AND R_RESUME \<noteq> 0"
  shows "\<exists>s1. state_switch i s = Some s1 \<and> state s1 = IDLE
          \<and> user_req s1 = user_req s AND NOT (R_RESUME OR R_STOP)"
  using assms
  by (simp add: state_switch_def case_defs block_defs action_defs collab_defs)

lemma switch_assist_position:
  "state s = ASSIST \<Longrightarrow> state_switch i s = Some s1 \<Longrightarrow>
   tm_position s1 = fsub32 (del s) (del_r s)"
  by (auto simp: state_switch_def case_defs block_defs action_defs collab_defs Let_def
      split: option.splits if_splits)

lemma switch_entry_keeps_user_req:
  "state_switch i s = Some s1 \<Longrightarrow>
   state s1 = CALIB \<or> state s1 = MANUAL \<or> state s1 = E_STOP \<Longrightarrow>
   user_req s1 = user_req s"
  unfolding state_switch_def
  by (auto simp: case_defs block_defs action_defs collab_defs Let_def
      split: option.splits if_splits)

lemma switch_requests_held:
  "requests_held s \<Longrightarrow> state_switch i s = Some s1 \<Longrightarrow> requests_held s1"
  unfolding state_switch_def requests_held_def
  by (auto simp: case_defs block_defs action_defs collab_defs Let_def
      split: option.splits if_splits)

lemma switch_user_req:
  "state_switch i s = Some s1 \<Longrightarrow>
   (user_req s1 = user_req s)
   \<or> (state s = CALIB \<and> state s1 = IDLE \<and> user_req s1 = user_req s AND NOT R_CALIB)
   \<or> (state s = MANUAL \<and> state s1 = IDLE
        \<and> user_req s1 = user_req s AND NOT (R_RESUME OR R_MANUAL))
   \<or> (state s = E_STOP \<and> state s1 = IDLE
        \<and> user_req s1 = user_req s AND NOT (R_RESUME OR R_STOP))"
  unfolding state_switch_def
  by (auto simp: case_defs block_defs action_defs collab_defs Let_def
      split: option.splits if_splits)

lemma loop_requests_held:
  assumes "requests_held s" and "loop i s = Some s'"
  shows "requests_held s'"
proof -
  from assms(2) obtain s1 where sw: "state_switch i (update_state_variables i s) = Some s1"
    and s': "s' = poll_commands i (report (state s1) s1)"
    by (auto simp: loop_Some)
  from assms(1) have "requests_held (update_state_variables i s)"
    by (simp add: requests_held_def)
  from switch_requests_held [OF this sw] have h: "requests_held s1" .
  have st: "state s' = state s1" by (simp add: s')
  have k: "\<And>n. bit (user_req s1) n \<Longrightarrow> bit (user_req s') n"
    using poll_commands_keeps_bits [of "report (state s1) s1" _ i] by (simp add: s')
  from h st k [of 0] k [of 1] k [of 2] show ?thesis
    by (auto simp: requests_held_def req_bit)
qed

lemma run_requests_held:
  "requests_held s \<Longrightarrow> run ins s = Some s' \<Longrightarrow> requests_held s'"
proof (induction ins arbitrary: s)
  case Nil
  then show ?case by simp
next
  case (Cons i ins)
  from Cons.prems(2) obtain s1 where l: "loop i s = Some s1" and r: "run ins s1 = Some s'"
    by (auto split: option.splits)
  from loop_requests_held [OF Cons.prems(1) l] have "requests_held s1" .
  from Cons.IH [OF this r] show ?case .
qed

lemma loop_clears_only_on_exit:
  assumes "loop i s = Some s'"
  shows "(user_req s AND R_CALIB \<noteq> 0 \<and> user_req s' AND R_CALIB = 0
            \<longrightarrow> state s = CALIB \<and> state s' = IDLE)
       \<and> (user_req s AND R_MANUAL \<noteq> 0 \<and> user_req s' AND R_MANUAL = 0
            \<longrightarrow> state s = MANUAL \<and> state s' = IDLE)
       \<and> (user_req s AND R_STOP \<noteq> 0 \<and> user_req s' AND R_STOP = 0
            \<longrightarrow> state s = E_STOP \<and> state s' = IDLE)"
proof -
  from assms obtain s1 where sw: "state_switch i (update_state_variables i s) = Some s1"
    and s': "s' = poll_commands i (report (state s1) s1)"
    by (auto simp: loop_Some)
  have st: "state s' = state s1" by (simp add: s')
  have k: "\<And>n. bit (user_req s1) n \<Longrightarrow> bit (user_req s') n"
    using poll_commands_keeps_bits [of "report (state s1) s1" _ i] by (simp add: s')
  from switch_user_req [OF sw]
  consider (same) "user_req s1 = user_req s"
    | (calib) "state s = CALIB" "state s1 = IDLE" "user_req s1 = user_req s AND NOT R_CALIB"
    | (manual) "state s = MANUAL" "state s1 = IDLE"
        "user_req s1 = user_req s AND NOT (R_RESUME OR R_MANUAL)"
    | (e_stop) "state s = E_STOP" "state s1 = IDLE"
        "user_req s1 = user_req s AND NOT (R_RESUME OR R_STOP)"
    by auto
  then show ?thesis
  proof cases
    case same
    then show ?thesis using k [of 0] k [of 1] k [of 2] by (auto simp: req_bit)
  next
    case calib
    have "bit (user_req s1) 1 = bit (user_req s) 1" "bit (user_req s1) 2 = bit (user_req s) 2"
      by (simp_all add: calib(3) bit_simps)
    then show ?thesis using k [of 1] k [of 2] calib(1,2) st by (auto simp: req_bit)
  next
    case manual
    have "bit (user_req s1) 0 = bit (user_req s) 0" "bit (user_req s1) 2 = bit (user_req s) 2"
      by (simp_all add: manual(3) bit_simps)
    then show ?thesis using k [of 0] k [of 2] manual(1,2) st by (auto simp: req_bit)
  next
    case e_stop
    have "bit (user_req s1) 0 = bit (user_req s) 0" "bit (user_req s1) 1 = bit (user_req s) 1"
      by (simp_all add: e_stop(3) bit_simps)
    then show ?thesis using k [of 0] k [of 1] e_stop(1,2) st by (auto simp: req_bit)
  qed
qed

subsection \<open>Rounding\<close>

lemma pow2_pos: "0 < pow2 e"
  by (simp add: pow2_def)

lemma pow2_powi: "pow2 e = 2 powi e"
  by (simp add: pow2_def power_int_def power_one_over inverse_eq_divide)

lemma pow2_diff: "pow2 (e - 23) = pow2 e / 2 ^ 23"
  by (simp add: pow2_powi power_int_diff)

lemma round_half_even_error: "\<bar>of_int (round_half_even y) - y\<bar> \<le> 1 / 2"
  unfolding round_half_even_def Let_def
  by (auto simp: abs_le_iff)

lemma binade_found: "binade n e x = e' \<Longrightarrow> pow2 e' \<le> x \<or> e' = e - int n"
  by (induction n e x rule: binade.induct) (auto split: if_splits)

lemma exponent32_cases: "pow2 (exponent32 x) \<le> \<bar>x\<bar> \<or> exponent32 x = - 126"
  using binade_found [of 253 127 "\<bar>x\<bar>" "exponent32 x"] by (auto simp: exponent32_def)

lemma round32_raw_error:
  "\<bar>of_int (round_half_even (x / pow2 (max (exponent32 x - 23) (- 149))))
      * pow2 (max (exponent32 x - 23) (- 149)) - x\<bar>
   \<le> max (\<bar>x\<bar> / 2 ^ 24) (1 / 2 ^ 150)"
proof -
  define q where "q = max (exponent32 x - 23) (- 149)"
  define m where "m = round_half_even (x / pow2 q)"
  define r where "r = of_int m * pow2 q"
  have "\<bar>of_int m - x / pow2 q\<bar> \<le> 1 / 2"
    unfolding m_def by (rule round_half_even_error)
  then have "\<bar>of_int m - x / pow2 q\<bar> * pow2 q \<le> 1 / 2 * pow2 q"
    using pow2_pos [of q] by (simp add: mult_right_mono)
  moreover have "\<bar>of_int m - x / pow2 q\<bar> * pow2 q = \<bar>r - x\<bar>"
  proof -
    have "(of_int m - x / pow2 q) * pow2 q = r - x"
      using pow2_pos [of q] by (simp add: r_def algebra_simps)
    then have "\<bar>r - x\<bar> = \<bar>of_int m - x / pow2 q\<bar> * \<bar>pow2 q\<bar>"
      by (simp add: abs_mult [symmetric])
    with pow2_pos [of q] show ?thesis by simp
  qed
  ultimately have e: "\<bar>r - x\<bar> \<le> pow2 q / 2" by simp
  have "pow2 q / 2 \<le> max (\<bar>x\<bar> / 2 ^ 24) (1 / 2 ^ 150)"
  proof (cases "exponent32 x - 23 \<le> - 149")
    case True
    then have "q = - 149" by (simp add: q_def)
    then have "pow2 q / 2 = 1 / 2 ^ 150" by (simp add: pow2_def)
    then show ?thesis by simp
  next
    case False
    then have q: "q = exponent32 x - 23" and "exponent32 x \<noteq> - 126" by (simp_all add: q_def)
    with exponent32_cases [of x] have "pow2 (exponent32 x) \<le> \<bar>x\<bar>" by simp
    then have "pow2 q / 2 \<le> \<bar>x\<bar> / 2 ^ 24"
      by (simp add: q pow2_diff)
    then show ?thesis by simp
  qed
  with e have "\<bar>r - x\<bar> \<le> max (\<bar>x\<bar> / 2 ^ 24) (1 / 2 ^ 150)" by linarith
  then show ?thesis by (simp add: r_def m_def q_def)
qed

lemma round32_finite:
  assumes "\<bar>x\<bar> < 2 ^ 127"
  shows "\<exists>r. round32 x = Finite r \<and> \<bar>r - x\<bar> \<le> max (\<bar>x\<bar> / 2 ^ 24) (1 / 2 ^ 150)"
proof -
  define r where "r = of_int (round_half_even (x / pow2 (max (exponent32 x - 23) (- 149))))
      * pow2 (max (exponent32 x - 23) (- 149))"
  have e: "\<bar>r - x\<bar> \<le> max (\<bar>x\<bar> / 2 ^ 24) (1 / 2 ^ 150)"
    unfolding r_def by (rule round32_raw_error)
  have "max (\<bar>x\<bar> / 2 ^ 24) (1 / 2 ^ 150) < (2 ^ 127 :: real)"
    using assms by simp
  with e assms have "\<bar>r\<bar> < 2 ^ 127 + 2 ^ 127" by linarith
  then have "\<bar>r\<bar> < pow2 128" by (simp add: pow2_def)
  then have "\<not> pow2 128 \<le> r" "\<not> r \<le> - pow2 128" by linarith+
  then have "round32 x = Finite r"
    unfolding round32_def Let_def r_def [symmetric] by simp
  with e show ?thesis by blast
qed

subsection \<open>The enable wait\<close>

lemma wait_enable_None: "wait_enable bs = None \<longleftrightarrow> count_list bs True = 0"
  by (induction bs) auto

lemma wait_enable_count: "wait_enable bs = Some r \<Longrightarrow> count_list bs True = Suc (count_list r True)"
  by (induction bs) (auto split: if_splits)

lemma idle_fast_returns:
  assumes "state s = IDLE" and "v s > 1.0"
  shows "case_IDLE s \<noteq> None \<longleftrightarrow>
     (if user_req s AND R_MANUAL \<noteq> 0 then 2 else 1) \<le> count_list (tm_replies s) True"
proof (cases "wait_enable (tm_replies s)")
  case None
  then have "count_list (tm_replies s) True = 0" by (simp add: wait_enable_None)
  with None assms show ?thesis
    by (simp add: case_IDLE_def block_defs collab_defs)
next
  case (Some r)
  from wait_enable_count [OF Some] have c: "count_list (tm_replies s) True = Suc (count_list r True)" .
  show ?thesis
  proof (cases "wait_enable r")
    case None
    then have "count_list r True = 0" by (simp add: wait_enable_None)
    with None Some c assms show ?thesis
      by (simp add: case_IDLE_def block_defs collab_defs)
  next
    case (Some r')
    from wait_enable_count [OF Some] have "count_list r True = Suc (count_list r' True)" .
    with Some \<open>wait_enable (tm_replies s) = Some r\<close> c assms show ?thesis
      by (simp add: case_IDLE_def block_defs collab_defs)
  qed
qed

subsection \<open>The exits that clear request bits\<close>

lemma cleared_resume_manual:
  "((x::u8) AND NOT (R_RESUME OR R_MANUAL)) AND R_RESUME = 0"
  "((x::u8) AND NOT (R_RESUME OR R_MANUAL)) AND R_MANUAL = 0"
  by (simp_all add: req_bit bit_simps)

lemma switch_calib_exit:
  assumes "state s = CALIB"
  shows "\<exists>s1. state_switch i s = Some s1 \<and> state s1 = IDLE
          \<and> user_req s1 = user_req s AND NOT R_CALIB"
  using assms
  by (simp add: state_switch_def case_defs block_defs action_defs collab_defs Let_def)

lemma switch_manual_resume:
  assumes "state s = MANUAL" and "user_req s AND R_RESUME \<noteq> 0"
  shows "\<exists>s1. state_switch i s = Some s1 \<and> state s1 = IDLE
          \<and> user_req s1 = user_req s AND NOT (R_RESUME OR R_MANUAL)"
  using assms
  by (simp add: state_switch_def case_defs block_defs action_defs collab_defs)

lemma tick_of_switch:
  assumes "state_switch i (update_state_variables i s) = Some s1"
  shows "\<exists>s'. loop i s = Some s' \<and> state s' = state s1
     \<and> (in_serial i = None \<longrightarrow> user_req s' = user_req s1)"
proof -
  let ?s' = "poll_commands i (report (state s1) s1)"
  from assms have l: "loop i s = Some ?s'" by (simp add: loop_def)
  have e: "in_serial i = None \<longrightarrow> user_req ?s' = user_req s1"
    by (simp add: poll_commands_no_serial)
  from l e show ?thesis by (intro exI [of _ ?s']) simp
qed

lemma exit_clears:
  "(state s = CALIB \<longrightarrow>
      (\<exists>t s'. state_switch i (update_state_variables i s) = Some t \<and> loop i s = Some s'
         \<and> state t = IDLE \<and> user_req t = user_req s AND NOT R_CALIB
         \<and> user_req t AND R_CALIB = 0
         \<and> state s' = IDLE \<and> (in_serial i = None \<longrightarrow> user_req s' = user_req s AND NOT R_CALIB)))
   \<and> (state s = MANUAL \<and> user_req s AND R_RESUME \<noteq> 0 \<longrightarrow>
      (\<exists>t s'. state_switch i (update_state_variables i s) = Some t \<and> loop i s = Some s'
         \<and> state t = IDLE \<and> user_req t = user_req s AND NOT (R_RESUME OR R_MANUAL)
         \<and> user_req t AND R_RESUME = 0 \<and> user_req t AND R_MANUAL = 0
         \<and> state s' = IDLE
         \<and> (in_serial i = None \<longrightarrow> user_req s' = user_req s AND NOT (R_RESUME OR R_MANUAL))))
   \<and> (state s = E_STOP \<and> user_req s AND R_RESUME \<noteq> 0 \<longrightarrow>
      (\<exists>t s'. state_switch i (update_state_variables i s) = Some t \<and> loop i s = Some s'
         \<and> state t = IDLE \<and> user_req t = user_req s AND NOT (R_RESUME OR R_STOP)
         \<and> user_req t AND R_RESUME = 0 \<and> user_req t AND R_STOP = 0
         \<and> state s' = IDLE
         \<and> (in_serial i = None \<longrightarrow> user_req s' = user_req s AND NOT (R_RESUME OR R_STOP))))"
proof (intro conjI impI)
  assume "state s = CALIB"
  then have "state (update_state_variables i s) = CALIB" by simp
  from switch_calib_exit [OF this, of i]
  obtain t where t: "state_switch i (update_state_variables i s) = Some t" "state t = IDLE"
    "user_req t = user_req s AND NOT R_CALIB" by auto
  from t(3) cleared_calib [of "user_req s"] have z: "user_req t AND R_CALIB = 0" by simp
  from tick_of_switch [OF t(1)]
  obtain s' where s': "loop i s = Some s'" "state s' = state t"
    "in_serial i = None \<longrightarrow> user_req s' = user_req t" by auto
  from t z s' show "\<exists>t s'. state_switch i (update_state_variables i s) = Some t \<and> loop i s = Some s'
         \<and> state t = IDLE \<and> user_req t = user_req s AND NOT R_CALIB
         \<and> user_req t AND R_CALIB = 0
         \<and> state s' = IDLE \<and> (in_serial i = None \<longrightarrow> user_req s' = user_req s AND NOT R_CALIB)"
    by (intro exI [of _ t] exI [of _ s']) simp
next
  assume "state s = MANUAL \<and> user_req s AND R_RESUME \<noteq> 0"
  then have "state (update_state_variables i s) = MANUAL"
    "user_req (update_state_variables i s) AND R_RESUME \<noteq> 0" by simp_all
  from switch_manual_resume [OF this, of i]
  obtain t where t: "state_switch i (update_state_variables i s) = Some t" "state t = IDLE"
    "user_req t = user_req s AND NOT (R_RESUME OR R_MANUAL)" by auto
  from t(3) cleared_resume_manual [of "user_req s"]
  have z: "user_req t AND R_RESUME = 0" "user_req t AND R_MANUAL = 0" by simp_all
  from tick_of_switch [OF t(1)]
  obtain s' where s': "loop i s = Some s'" "state s' = state t"
    "in_serial i = None \<longrightarrow> user_req s' = user_req t" by auto
  from t z s' show "\<exists>t s'. state_switch i (update_state_variables i s) = Some t \<and> loop i s = Some s'
         \<and> state t = IDLE \<and> user_req t = user_req s AND NOT (R_RESUME OR R_MANUAL)
         \<and> user_req t AND R_RESUME = 0 \<and> user_req t AND R_MANUAL = 0
         \<and> state s' = IDLE
         \<and> (in_serial i = None \<longrightarrow> user_req s' = user_req s AND NOT (R_RESUME OR R_MANUAL))"
    by (intro exI [of _ t] exI [of _ s']) simp
next
  assume "state s = E_STOP \<and> user_req s AND R_RESUME \<noteq> 0"
  then have "state (update_state_variables i s) = E_STOP"
    "user_req (update_state_variables i s) AND R_RESUME \<noteq> 0" by simp_all
  from switch_e_stop_resume [OF this, of i]
  obtain t where t: "state_switch i (update_state_variables i s) = Some t" "state t = IDLE"
    "user_req t = user_req s AND NOT (R_RESUME OR R_STOP)" by auto
  from t(3) cleared_resume_stop [of "user_req s"]
  have z: "user_req t AND R_RESUME = 0" "user_req t AND R_STOP = 0" by simp_all
  from tick_of_switch [OF t(1)]
  obtain s' where s': "loop i s = Some s'" "state s' = state t"
    "in_serial i = None \<longrightarrow> user_req s' = user_req t" by auto
  from t z s' show "\<exists>t s'. state_switch i (update_state_variables i s) = Some t \<and> loop i s = Some s'
         \<and> state t = IDLE \<and> user_req t = user_req s AND NOT (R_RESUME OR R_STOP)
         \<and> user_req t AND R_RESUME = 0 \<and> user_req t AND R_STOP = 0
         \<and> state s' = IDLE
         \<and> (in_serial i = None \<longrightarrow> user_req s' = user_req s AND NOT (R_RESUME OR R_STOP))"
    by (intro exI [of _ t] exI [of _ s']) simp
qed

section \<open>The properties\<close>

subsection \<open>C1: which state action a tick runs\<close>

text \<open>
  C1, as amended. On every tick that returns, started in one of the seven defined states,
  exactly one state action is invoked, and it is the action of the state the tick started
  in (the case label of the switch), run after the guards of that case; from an undefined
  state value no action is invoked. The call log grows by exactly that one entry.
\<close>

theorem tick_runs_action_of_start_state:
  assumes "loop i s = Some s'"
  shows "calls s' = calls s @
     (if state s = IDLE then [Call_idle]
      else if state s = CALIB then [Call_calibrate]
      else if state s = MANUAL then [Call_manual]
      else if state s = ASSIST then [Call_assist]
      else if state s = AUTO then [Call_automatic]
      else if state s = FALLEN then [Call_fallen]
      else if state s = E_STOP then [Call_emergency_stop]
      else [])"
  using loop_calls [OF assms] by (simp add: action_of_def)

text \<open>An instance: the tick that takes Idle to Assisted logs the call of \<^verbatim>\<open>idle\<close>.\<close>

theorem tick_runs_action_of_start_state_witness:
  "\<exists>s'. loop (quiet\<lparr>in_v := 1.5\<rparr>) power_on = Some s' \<and> state s' = ASSIST
     \<and> calls s' = [Call_idle]"
proof -
  have "\<exists>s'. loop (quiet\<lparr>in_v := 1.5\<rparr>) power_on = Some s' \<and> state s' = ASSIST"
    by (simp add: tick_defs power_on_def quiet_def threshold_facts)
  then obtain s' where h: "loop (quiet\<lparr>in_v := 1.5\<rparr>) power_on = Some s'"
    and st: "state s' = ASSIST" by blast
  from tick_runs_action_of_start_state [OF h] have "calls s' = [Call_idle]"
    by (simp add: power_on_def)
  with h st show ?thesis by simp
qed

text \<open>
  C1 as stated fails: with the speed at 1.5 and the steering angle at 0.25 a tick takes
  Idle to Assisted, and the only action it runs is \<^verbatim>\<open>idle\<close>. \<^verbatim>\<open>assist\<close> would have commanded
  the position 0.25; the position setpoint is still 0.
\<close>

theorem idle_to_assist_runs_idle_action:
  "map_option (\<lambda>s'. (state s', calls s', tm_position s'))
     (loop (quiet\<lparr>in_v := 1.5, in_del := 0.25\<rparr>) power_on)
     = Some (ASSIST, [Call_idle], Finite 0)"
  by (simp add: tick_defs power_on_def quiet_def threshold_facts)

subsection \<open>C2: drive speed while Fallen or EmergencyStop\<close>

text \<open>
  C2 asks for a zero drive command on every tick spent in Fallen or EmergencyStop. The
  code at two runs from the start. First: the operator sets the speed 1.5, the vehicle
  reaches that speed (Assisted), then leans by 1 rad and stays there for two ticks: the
  state is Fallen and the drive command is still 1.5. Second: a stop request arrives while
  Assisted, the next tick enters EmergencyStop with the drive command 0, and a speed
  command received in EmergencyStop sets it to 2.
\<close>

theorem fallen_keeps_drive_speed:
  "map_option (\<lambda>s'. (state s', dm_speed s'))
     (run [quiet\<lparr>in_serial := Some (115, 1.5, 0)\<rparr>, quiet\<lparr>in_v := 1.5\<rparr>,
           quiet\<lparr>in_v := 1.5, in_phi := 1\<rparr>, quiet\<lparr>in_v := 1.5, in_phi := 1\<rparr>] power_on)
     = Some (FALLEN, 1.5)
   \<and> map_option (\<lambda>s'. (state s', dm_speed s'))
     (run [quiet\<lparr>in_v := 1.5, in_serial := Some (99, 0, 4)\<rparr>, quiet\<lparr>in_v := 1.5\<rparr>,
           quiet\<lparr>in_v := 1.5, in_serial := Some (115, 2, 0)\<rparr>] power_on)
     = Some (E_STOP, 2)"
  by (simp add: tick_defs power_on_def quiet_def threshold_facts)

subsection \<open>C3: the actuator mode invariant\<close>

text \<open>
  C3. In every state the program reaches from its start, at the end of every tick: if the
  state is Assisted or Manual the torque motor's mode is position tracking, and if the
  state is Autonomous it is torque tracking.
\<close>

theorem actuator_mode_invariant:
  assumes "startup s" and "run ins s = Some s'"
  shows "mode_invariant s'"
proof -
  from assms(1) have "mode_invariant s"
    by (simp add: startup_def mode_invariant_def)
  from run_mode_invariant [OF this assms(2)] show ?thesis .
qed

text \<open>
  Instances: from a start in torque mode, one tick at speed 1.5 ends in Assisted with
  position tracking, and a second one at speed 3 in Autonomous with torque tracking.
\<close>

theorem actuator_mode_invariant_witness:
  "startup power_on
   \<and> (\<exists>s'. run [quiet\<lparr>in_v := 1.5\<rparr>] power_on = Some s' \<and> state s' = ASSIST
         \<and> tm_mode s' = OP_PROFILE_POSITION)
   \<and> (\<exists>s'. run [quiet\<lparr>in_v := 1.5\<rparr>, quiet\<lparr>in_v := 3\<rparr>] power_on = Some s' \<and> state s' = AUTO
         \<and> tm_mode s' = OP_PROFILE_TORQUE)"
proof -
  have st: "startup power_on" by (simp add: startup_def power_on_def)
  have "\<exists>s'. run [quiet\<lparr>in_v := 1.5\<rparr>] power_on = Some s' \<and> state s' = ASSIST"
    by (simp add: tick_defs power_on_def quiet_def threshold_facts)
  then obtain s1 where r1: "run [quiet\<lparr>in_v := 1.5\<rparr>] power_on = Some s1"
    and a1: "state s1 = ASSIST" by blast
  from actuator_mode_invariant [OF st r1] a1 have m1: "tm_mode s1 = OP_PROFILE_POSITION"
    by (simp add: mode_invariant_def)
  have "\<exists>s'. run [quiet\<lparr>in_v := 1.5\<rparr>, quiet\<lparr>in_v := 3\<rparr>] power_on = Some s' \<and> state s' = AUTO"
    by (simp add: tick_defs power_on_def quiet_def threshold_facts)
  then obtain s2 where r2: "run [quiet\<lparr>in_v := 1.5\<rparr>, quiet\<lparr>in_v := 3\<rparr>] power_on = Some s2"
    and a2: "state s2 = AUTO" by blast
  from actuator_mode_invariant [OF st r2] a2 have m2: "tm_mode s2 = OP_PROFILE_TORQUE"
    by (simp add: mode_invariant_def)
  from st r1 a1 m1 r2 a2 m2 show ?thesis by blast
qed

subsection \<open>C4: speed and fall guards together in Idle\<close>

text \<open>
  C4, as amended. From Idle, on a tick where both the speed is above 1.0 and the absolute
  lean angle is above \<open>pi / 4\<close>, a tick that returns never ends in Fallen: it ends in
  Assisted when neither RequestCalibrate nor RequestManual is set, and in the state of the
  last of those two guards that matches otherwise (Manual if RequestManual is set, else
  Calibrating). The tick returns exactly when the torque motor confirms each enable wait
  of the tick: one positive reply, and a second one when RequestManual is set (the Manual
  entry waits again).
\<close>

theorem idle_speed_and_fall:
  assumes "state s = IDLE" and "in_v i > 1.0" and "\<bar>in_phi i\<bar> > pi / 4"
  shows "(\<forall>s'. loop i s = Some s' \<longrightarrow>
            state s' = (if user_req s AND R_MANUAL \<noteq> 0 then MANUAL
                        else if user_req s AND R_CALIB \<noteq> 0 then CALIB else ASSIST))
       \<and> (loop i s \<noteq> None \<longleftrightarrow>
            (if user_req s AND R_MANUAL \<noteq> 0 then 2 else 1) \<le> count_list (tm_replies s) True)"
proof -
  have fall: "\<bar>in_phi i\<bar> > FTHRESH" using assms(3) by (simp add: FTHRESH_def)
  have a: "\<forall>s'. loop i s = Some s' \<longrightarrow>
            state s' = (if user_req s AND R_MANUAL \<noteq> 0 then MANUAL
                        else if user_req s AND R_CALIB \<noteq> 0 then CALIB else ASSIST)"
    using assms(1,2) fall
    by (auto simp: tick_defs split: option.splits if_splits)
  let ?s0 = "update_state_variables i s"
  have "state ?s0 = IDLE" "v ?s0 > 1.0" using assms(1,2) by simp_all
  from idle_fast_returns [OF this]
  have "case_IDLE ?s0 \<noteq> None \<longleftrightarrow>
     (if user_req s AND R_MANUAL \<noteq> 0 then 2 else 1) \<le> count_list (tm_replies s) True"
    by simp
  moreover have "loop i s \<noteq> None \<longleftrightarrow> case_IDLE ?s0 \<noteq> None"
    using assms(1) by (simp add: loop_def state_switch_def split: option.splits)
  ultimately have b: "loop i s \<noteq> None \<longleftrightarrow>
     (if user_req s AND R_MANUAL \<noteq> 0 then 2 else 1) \<le> count_list (tm_replies s) True"
    by simp
  from a b show ?thesis by blast
qed

text \<open>
  Instances at speed 1.5 and lean 1 rad, the motor confirming three times: no request
  pending ends in Assisted, RequestCalibrate in Calibrating, RequestManual in Manual. With
  RequestManual set and a single confirmation the tick does not return.
\<close>

theorem idle_speed_and_fall_witness:
  "(\<exists>s'. loop (quiet\<lparr>in_v := 1.5, in_phi := 1\<rparr>) power_on = Some s' \<and> state s' = ASSIST)
   \<and> (\<exists>s'. loop (quiet\<lparr>in_v := 1.5, in_phi := 1\<rparr>) (power_on\<lparr>user_req := R_CALIB\<rparr>) = Some s'
        \<and> state s' = CALIB)
   \<and> (\<exists>s'. loop (quiet\<lparr>in_v := 1.5, in_phi := 1\<rparr>) (power_on\<lparr>user_req := R_MANUAL\<rparr>) = Some s'
        \<and> state s' = MANUAL)
   \<and> loop (quiet\<lparr>in_v := 1.5, in_phi := 1\<rparr>)
        (power_on\<lparr>user_req := R_MANUAL, tm_replies := [True]\<rparr>) = None"
proof -
  let ?i = "quiet\<lparr>in_v := 1.5, in_phi := 1\<rparr>"
  have i: "in_v ?i > 1.0" "\<bar>in_phi ?i\<bar> > pi / 4"
    using pi_less_4 by (simp_all add: quiet_def)
  have s: "state power_on = IDLE" "state (power_on\<lparr>user_req := R_CALIB\<rparr>) = IDLE"
    "state (power_on\<lparr>user_req := R_MANUAL\<rparr>) = IDLE"
    "state (power_on\<lparr>user_req := R_MANUAL, tm_replies := [True]\<rparr>) = IDLE"
    by (simp_all add: power_on_def)
  from idle_speed_and_fall [OF s(1) i]
  have a: "\<exists>s'. loop ?i power_on = Some s' \<and> state s' = ASSIST"
    by (auto simp: power_on_def)
  from idle_speed_and_fall [OF s(2) i]
  have b: "\<exists>s'. loop ?i (power_on\<lparr>user_req := R_CALIB\<rparr>) = Some s' \<and> state s' = CALIB"
    by (auto simp: power_on_def)
  from idle_speed_and_fall [OF s(3) i]
  have c: "\<exists>s'. loop ?i (power_on\<lparr>user_req := R_MANUAL\<rparr>) = Some s' \<and> state s' = MANUAL"
    by (auto simp: power_on_def)
  from idle_speed_and_fall [OF s(4) i]
  have d: "loop ?i (power_on\<lparr>user_req := R_MANUAL, tm_replies := [True]\<rparr>) = None"
    by (auto simp: power_on_def)
  from a b c d show ?thesis by blast
qed

text \<open>
  C4 as stated fails: with RequestCalibrate pending, the same tick (speed 1.5, lean 1 rad,
  both guards true) ends in Calibrating, not in Assisted.
\<close>

theorem idle_speed_and_fall_calib_requested:
  "map_option state (loop (quiet\<lparr>in_v := 1.5, in_phi := 1\<rparr>) (power_on\<lparr>user_req := R_CALIB\<rparr>))
     = Some CALIB
   \<and> state (power_on\<lparr>user_req := R_CALIB\<rparr>) = IDLE
   \<and> in_v (quiet\<lparr>in_v := 1.5, in_phi := 1\<rparr>) > 1.0
   \<and> \<bar>in_phi (quiet\<lparr>in_v := 1.5, in_phi := 1\<rparr>)\<bar> > pi / 4"
  using pi_less_4 by (simp add: tick_defs power_on_def quiet_def threshold_facts)

subsection \<open>C5: an undefined state value\<close>

text \<open>
  C5, as amended. If the state variable holds a value outside the seven defined states,
  the tick only sets the indicator's passive colour to (0, 0, 0), reports and polls the
  command channel: no guard is evaluated and no state action runs, on that tick and on
  every later one, and the state value never changes. The switch commands no actuator:
  mode, position and torque setpoints stay as they were, as do the indicator's blink
  colour and pulse.
\<close>

theorem invalid_state_is_absorbing:
  assumes "E_STOP < state s"
  shows "loop i s =
      Some (poll_commands i (report (state s) (setPassiveRGB 0 0 0 (update_state_variables i s))))
    \<and> (\<exists>s'. run ins s = Some s' \<and> state s' = state s \<and> calls s' = calls s
        \<and> tm_mode s' = tm_mode s \<and> tm_position s' = tm_position s
        \<and> tm_torque s' = tm_torque s \<and> ind_blink s' = ind_blink s
        \<and> ind_pulse s' = ind_pulse s
        \<and> (ins \<noteq> [] \<longrightarrow> ind_passive s' = (0, 0, 0)))"
  using loop_invalid_state [OF assms] run_invalid_state [OF assms] by blast

text \<open>An instance: two ticks from the state value 7, the second at speed 1.5.\<close>

theorem invalid_state_is_absorbing_witness:
  "\<exists>s'. E_STOP < state (power_on\<lparr>state := 7\<rparr>)
      \<and> run [quiet, quiet\<lparr>in_v := 1.5\<rparr>] (power_on\<lparr>state := 7\<rparr>) = Some s' \<and> state s' = 7
      \<and> calls s' = [] \<and> ind_passive s' = (0, 0, 0)"
proof -
  have h: "E_STOP < state (power_on\<lparr>state := 7\<rparr>)" by simp
  from invalid_state_is_absorbing [OF h, of quiet "[quiet, quiet\<lparr>in_v := 1.5\<rparr>]"] h
  show ?thesis by (auto simp: power_on_def)
qed

text \<open>
  C5 as stated fails: from the state value 7 with the drive command at 3 and the pulse
  armed, a tick that receives the speed command 2 ends with the drive actuator commanded
  to 2, the blink colour unchanged and the pulse still armed: the actuator outputs are not
  disabled and only the passive colour of the indicator is off.
\<close>

theorem invalid_state_keeps_actuators_driven:
  "map_option (\<lambda>s'. (state s', dm_speed s', ind_passive s', ind_blink s', ind_pulse s'))
     (loop (quiet\<lparr>in_serial := Some (115, 2, 0)\<rparr>)
        (power_on\<lparr>state := 7, dm_speed := 3, ind_pulse := Some (500, 1500)\<rparr>))
   = Some (7, 2, (0, 0, 0), (0, 0, 255), Some (500, 1500))"
  by (simp add: tick_defs power_on_def quiet_def threshold_facts)

subsection \<open>C6: resuming from EmergencyStop\<close>

text \<open>
  C6. From EmergencyStop, on a tick with RequestResume set and the lean angle 0, the switch
  leaves the state Idle with both RequestResume and RequestStop cleared; the tick ends in
  Idle, and with both bits still clear when the command poll after the switch receives
  nothing.
\<close>

theorem e_stop_resume_to_idle:
  assumes "state s = E_STOP" and "user_req s AND R_RESUME \<noteq> 0" and "in_phi i = 0"
  shows "\<exists>s1 s'. state_switch i (update_state_variables i s) = Some s1 \<and> loop i s = Some s'
     \<and> state s1 = IDLE \<and> user_req s1 AND R_RESUME = 0 \<and> user_req s1 AND R_STOP = 0
     \<and> state s' = IDLE
     \<and> (in_serial i = None \<longrightarrow> user_req s' AND R_RESUME = 0 \<and> user_req s' AND R_STOP = 0)"
proof -
  have "state (update_state_variables i s) = E_STOP"
    "user_req (update_state_variables i s) AND R_RESUME \<noteq> 0"
    using assms(1,2) by simp_all
  from switch_e_stop_resume [OF this]
  obtain s1 where sw: "state_switch i (update_state_variables i s) = Some s1"
    and st: "state s1 = IDLE"
    and rq: "user_req s1 = user_req s AND NOT (R_RESUME OR R_STOP)"
    by auto
  let ?s' = "poll_commands i (report (state s1) s1)"
  from sw have l: "loop i s = Some ?s'" by (simp add: loop_def)
  from rq have c: "user_req s1 AND R_RESUME = 0" "user_req s1 AND R_STOP = 0"
    using cleared_resume_stop [of "user_req s"] by simp_all
  have e: "in_serial i = None \<longrightarrow> user_req ?s' AND R_RESUME = 0 \<and> user_req ?s' AND R_STOP = 0"
    using c by (simp add: poll_commands_no_serial)
  from sw l st c e show ?thesis by (intro exI [of _ s1] exI [of _ ?s']) simp
qed

text \<open>An instance: EmergencyStop with RequestStop and RequestResume set, sensors at zero.\<close>

theorem e_stop_resume_to_idle_witness:
  "\<exists>s'. loop quiet (power_on\<lparr>state := E_STOP, user_req := R_STOP OR R_RESUME\<rparr>) = Some s'
     \<and> state s' = IDLE \<and> user_req s' AND R_RESUME = 0 \<and> user_req s' AND R_STOP = 0"
proof -
  let ?s = "power_on\<lparr>state := E_STOP, user_req := R_STOP OR R_RESUME\<rparr>"
  have h: "state ?s = E_STOP" "user_req ?s AND R_RESUME \<noteq> 0" "in_phi quiet = 0"
    by (simp_all add: quiet_def)
  have n: "in_serial quiet = None" by (simp add: quiet_def)
  from e_stop_resume_to_idle [OF h] n show ?thesis by auto
qed

subsection \<open>C7: Calibrating always returns to Idle\<close>

text \<open>
  C7. From Calibrating, whatever the measurements and the request bits, the switch leaves
  the state Idle with RequestCalibrate cleared and the indicator pulse disabled; the tick
  ends in Idle with the pulse disabled, and with RequestCalibrate still clear when the
  command poll after the switch receives nothing.
\<close>

theorem calibrating_always_to_idle:
  assumes "state s = CALIB"
  shows "\<exists>s1 s'. state_switch i (update_state_variables i s) = Some s1 \<and> loop i s = Some s'
     \<and> state s1 = IDLE \<and> user_req s1 AND R_CALIB = 0 \<and> ind_pulse s1 = None
     \<and> state s' = IDLE \<and> ind_pulse s' = None
     \<and> (in_serial i = None \<longrightarrow> user_req s' AND R_CALIB = 0)"
proof -
  let ?s1 = "calibrate i (calib_to_idle (update_state_variables i s))"
  let ?s' = "poll_commands i (report (state ?s1) ?s1)"
  have sw: "state_switch i (update_state_variables i s) = Some ?s1"
    using assms by (simp add: state_switch_def case_CALIB_def)
  then have l: "loop i s = Some ?s'" by (simp add: loop_def)
  have rq: "user_req ?s1 = user_req s AND NOT R_CALIB"
    by (simp add: calibrate_def calib_to_idle_def collab_defs Let_def)
  have f: "state ?s1 = IDLE" "ind_pulse ?s1 = None" "user_req ?s1 AND R_CALIB = 0"
    using cleared_calib [of "user_req s"]
    by (simp_all add: rq) (simp_all add: calibrate_def calib_to_idle_def collab_defs Let_def)
  have e: "in_serial i = None \<longrightarrow> user_req ?s' AND R_CALIB = 0"
    using f(3) by (simp add: poll_commands_no_serial)
  from sw l f e show ?thesis by (intro exI [of _ ?s1] exI [of _ ?s']) simp
qed

text \<open>
  An instance: Calibrating with two requests pending and the pulse armed, at a lean of
  1 rad and speed 3.
\<close>

theorem calibrating_always_to_idle_witness:
  "\<exists>s'. loop (quiet\<lparr>in_phi := 1, in_v := 3\<rparr>)
        (power_on\<lparr>state := CALIB, user_req := R_CALIB OR R_MANUAL, ind_pulse := Some (250, 250)\<rparr>)
      = Some s' \<and> state s' = IDLE \<and> user_req s' AND R_CALIB = 0 \<and> ind_pulse s' = None"
proof -
  let ?s = "power_on\<lparr>state := CALIB, user_req := R_CALIB OR R_MANUAL, ind_pulse := Some (250, 250)\<rparr>"
  have h: "state ?s = CALIB" by simp
  have n: "in_serial (quiet\<lparr>in_phi := 1, in_v := 3\<rparr>) = None" by (simp add: quiet_def)
  from calibrating_always_to_idle [OF h, of "quiet\<lparr>in_phi := 1, in_v := 3\<rparr>"] n
  show ?thesis by auto
qed

subsection \<open>C8: the position-hold law of Assisted\<close>

text \<open>
  C8, as amended. On every tick in which the Assisted action runs, the position setpoint
  commanded to the torque motor is the single-precision difference of the steering angle
  read this tick and the steering reference: the exact difference rounded to the nearest
  binary32 value, with gain 1 and no other term. For a difference below \<open>2 ^ 127\<close> in
  magnitude the setpoint is finite and differs from the exact difference by at most the
  fraction \<open>1 / 2 ^ 24\<close> of it (at most \<open>1 / 2 ^ 150\<close> in the subnormal range).
\<close>

theorem assist_commands_position_error:
  assumes "loop i s = Some s'" and "calls s' = calls s @ [Call_assist]"
  shows "tm_position s' = fsub32 (in_del i) (del_r s)
     \<and> (\<bar>in_del i - del_r s\<bar> < 2 ^ 127 \<longrightarrow>
          (\<exists>r. tm_position s' = Finite r
             \<and> \<bar>r - (in_del i - del_r s)\<bar> \<le> max (\<bar>in_del i - del_r s\<bar> / 2 ^ 24) (1 / 2 ^ 150)))"
proof -
  from loop_calls [OF assms(1)] assms(2) have st: "state s = ASSIST"
    by (simp add: action_of_def split: if_splits)
  from assms(1) obtain s1 where sw: "state_switch i (update_state_variables i s) = Some s1"
    and s': "s' = poll_commands i (report (state s1) s1)"
    by (auto simp: loop_Some)
  from st have "state (update_state_variables i s) = ASSIST" by simp
  from switch_assist_position [OF this sw] s'
  have p: "tm_position s' = fsub32 (in_del i) (del_r s)" by simp
  with round32_finite [of "in_del i - del_r s"] show ?thesis
    by (simp add: fsub32_def)
qed

text \<open>An instance: steering angle 0.5 against the reference 0.25 commands 0.25.\<close>

theorem assist_commands_position_error_witness:
  "\<exists>s'. loop (quiet\<lparr>in_v := 1.5, in_del := 0.5\<rparr>) (power_on\<lparr>state := ASSIST, del_r := 0.25\<rparr>)
        = Some s'
     \<and> calls s' = [Call_assist] \<and> tm_position s' = Finite 0.25"
proof -
  let ?i = "quiet\<lparr>in_v := 1.5, in_del := 0.5\<rparr>"
  let ?s = "power_on\<lparr>state := ASSIST, del_r := 0.25\<rparr>"
  have "\<exists>s'. loop ?i ?s = Some s' \<and> calls s' = calls ?s @ [Call_assist]"
    by (simp add: tick_defs power_on_def quiet_def threshold_facts)
  then obtain s' where l: "loop ?i ?s = Some s'" and c: "calls s' = calls ?s @ [Call_assist]"
    by blast
  have e: "fsub32 0.5 0.25 = Finite 0.25" by code_simp
  from assist_commands_position_error [OF l c] have "tm_position s' = fsub32 0.5 0.25"
    by (simp add: quiet_def)
  with e l c show ?thesis by (auto simp: power_on_def)
qed

text \<open>
  C8 as stated fails: with the steering angle at the float nearest 0.1 and the reference
  at the float nearest 0.3, the exact difference is \<open>- 26843547 / 134217728\<close>, which
  needs 25 significant bits; the setpoint commanded is \<open>- 6710887 / 33554432\<close>.
\<close>

theorem assist_position_is_rounded:
  "map_option tm_position
     (loop (quiet\<lparr>in_v := 1.5, in_del := 13421773 / 134217728\<rparr>)
        (power_on\<lparr>state := ASSIST, del_r := 5033165 / 16777216\<rparr>))
     = Some (Finite (- 6710887 / 33554432))
   \<and> in_del (quiet\<lparr>in_v := 1.5, in_del := 13421773 / 134217728\<rparr>)
       - del_r (power_on\<lparr>state := ASSIST, del_r := 5033165 / 16777216\<rparr>)
     = - 26843547 / 134217728
   \<and> (- 6710887 / 33554432 :: real) \<noteq> - 26843547 / 134217728"
proof -
  have e: "fsub32 (13421773 / 134217728) (5033165 / 16777216) = Finite (- 6710887 / 33554432)"
    by code_simp
  have "map_option tm_position
     (loop (quiet\<lparr>in_v := 1.5, in_del := 13421773 / 134217728\<rparr>)
        (power_on\<lparr>state := ASSIST, del_r := 5033165 / 16777216\<rparr>))
     = Some (fsub32 (13421773 / 134217728) (5033165 / 16777216))"
    by (simp add: tick_defs power_on_def quiet_def threshold_facts)
  with e show ?thesis by simp
qed

subsection \<open>C9: no fall detection in Manual and Calibrating\<close>

text \<open>
  C9. For every lean angle (every input of the tick), a tick started in Manual returns and
  does not end in Fallen: it ends in Idle when RequestResume is set and in Manual
  otherwise. A tick started in Calibrating returns and ends in Idle.
\<close>

theorem manual_and_calibrating_never_fall:
  "(state s = MANUAL \<longrightarrow>
      (\<exists>s'. loop i s = Some s' \<and> state s' \<noteq> FALLEN
         \<and> state s' = (if user_req s AND R_RESUME \<noteq> 0 then IDLE else MANUAL)))
   \<and> (state s = CALIB \<longrightarrow> (\<exists>s'. loop i s = Some s' \<and> state s' = IDLE))"
  by (simp add: loop_def state_switch_def case_defs block_defs action_defs collab_defs Let_def)

text \<open>Instances at a lean of 1 rad, beyond the fall threshold.\<close>

theorem manual_and_calibrating_never_fall_witness:
  "(\<exists>s'. loop (quiet\<lparr>in_phi := 1\<rparr>) (power_on\<lparr>state := MANUAL, user_req := R_MANUAL\<rparr>) = Some s'
      \<and> state s' = MANUAL)
   \<and> (\<exists>s'. loop (quiet\<lparr>in_phi := 1\<rparr>)
        (power_on\<lparr>state := MANUAL, user_req := R_MANUAL OR R_RESUME\<rparr>) = Some s'
      \<and> state s' = IDLE)
   \<and> (\<exists>s'. loop (quiet\<lparr>in_phi := 1\<rparr>) (power_on\<lparr>state := CALIB, user_req := R_CALIB\<rparr>) = Some s'
      \<and> state s' = IDLE)
   \<and> \<bar>in_phi (quiet\<lparr>in_phi := 1\<rparr>)\<bar> > FTHRESH"
  using
    manual_and_calibrating_never_fall
      [of "power_on\<lparr>state := MANUAL, user_req := R_MANUAL\<rparr>" "quiet\<lparr>in_phi := 1\<rparr>"]
    manual_and_calibrating_never_fall
      [of "power_on\<lparr>state := MANUAL, user_req := R_MANUAL OR R_RESUME\<rparr>" "quiet\<lparr>in_phi := 1\<rparr>"]
    manual_and_calibrating_never_fall
      [of "power_on\<lparr>state := CALIB, user_req := R_CALIB\<rparr>" "quiet\<lparr>in_phi := 1\<rparr>"]
  by (auto simp: threshold_facts)

subsection \<open>C10: request bits are cleared on exit only\<close>

text \<open>
  C10. Request bits are cleared on exit transitions, never on entry. (a) A switch that ends
  in Calibrating, Manual or EmergencyStop leaves the request bits as they were. (b) In
  every state reached from the start, RequestCalibrate is set while the state is
  Calibrating, RequestManual while it is Manual and RequestStop while it is EmergencyStop.
  (c) A tick after which one of these three bits is clear that was set before is a tick
  from the corresponding state back to Idle. (d) The exits do clear: the tick from
  Calibrating, the tick from Manual with RequestResume set and the tick from EmergencyStop
  with RequestResume set each return, end in Idle, and their switch leaves the register
  with exactly the bits of the exit removed (RequestCalibrate; RequestResume and
  RequestManual; RequestResume and RequestStop), which is also the register at the end of
  the tick when the command poll receives nothing.
\<close>

theorem requests_cleared_on_exit_only:
  "(state_switch i s = Some s1 \<and> (state s1 = CALIB \<or> state s1 = MANUAL \<or> state s1 = E_STOP)
      \<longrightarrow> user_req s1 = user_req s)
   \<and> (startup s0 \<and> run ins s0 = Some s2 \<longrightarrow> requests_held s2)
   \<and> (loop i s = Some s' \<longrightarrow>
        (user_req s AND R_CALIB \<noteq> 0 \<and> user_req s' AND R_CALIB = 0
            \<longrightarrow> state s = CALIB \<and> state s' = IDLE)
       \<and> (user_req s AND R_MANUAL \<noteq> 0 \<and> user_req s' AND R_MANUAL = 0
            \<longrightarrow> state s = MANUAL \<and> state s' = IDLE)
       \<and> (user_req s AND R_STOP \<noteq> 0 \<and> user_req s' AND R_STOP = 0
            \<longrightarrow> state s = E_STOP \<and> state s' = IDLE))
   \<and> ((state s = CALIB \<longrightarrow>
          (\<exists>t s'. state_switch i (update_state_variables i s) = Some t \<and> loop i s = Some s'
             \<and> state t = IDLE \<and> user_req t = user_req s AND NOT R_CALIB
             \<and> user_req t AND R_CALIB = 0
             \<and> state s' = IDLE \<and> (in_serial i = None \<longrightarrow> user_req s' = user_req s AND NOT R_CALIB)))
       \<and> (state s = MANUAL \<and> user_req s AND R_RESUME \<noteq> 0 \<longrightarrow>
          (\<exists>t s'. state_switch i (update_state_variables i s) = Some t \<and> loop i s = Some s'
             \<and> state t = IDLE \<and> user_req t = user_req s AND NOT (R_RESUME OR R_MANUAL)
             \<and> user_req t AND R_RESUME = 0 \<and> user_req t AND R_MANUAL = 0
             \<and> state s' = IDLE
             \<and> (in_serial i = None \<longrightarrow> user_req s' = user_req s AND NOT (R_RESUME OR R_MANUAL))))
       \<and> (state s = E_STOP \<and> user_req s AND R_RESUME \<noteq> 0 \<longrightarrow>
          (\<exists>t s'. state_switch i (update_state_variables i s) = Some t \<and> loop i s = Some s'
             \<and> state t = IDLE \<and> user_req t = user_req s AND NOT (R_RESUME OR R_STOP)
             \<and> user_req t AND R_RESUME = 0 \<and> user_req t AND R_STOP = 0
             \<and> state s' = IDLE
             \<and> (in_serial i = None \<longrightarrow> user_req s' = user_req s AND NOT (R_RESUME OR R_STOP)))))"
proof -
  have a: "state_switch i s = Some s1
      \<and> (state s1 = CALIB \<or> state s1 = MANUAL \<or> state s1 = E_STOP)
      \<longrightarrow> user_req s1 = user_req s"
    using switch_entry_keeps_user_req by blast
  have b: "startup s0 \<and> run ins s0 = Some s2 \<longrightarrow> requests_held s2"
  proof
    assume h: "startup s0 \<and> run ins s0 = Some s2"
    then have "requests_held s0" by (simp add: startup_def requests_held_def)
    from run_requests_held [OF this] h show "requests_held s2" by blast
  qed
  have c: "loop i s = Some s' \<longrightarrow>
        (user_req s AND R_CALIB \<noteq> 0 \<and> user_req s' AND R_CALIB = 0
            \<longrightarrow> state s = CALIB \<and> state s' = IDLE)
       \<and> (user_req s AND R_MANUAL \<noteq> 0 \<and> user_req s' AND R_MANUAL = 0
            \<longrightarrow> state s = MANUAL \<and> state s' = IDLE)
       \<and> (user_req s AND R_STOP \<noteq> 0 \<and> user_req s' AND R_STOP = 0
            \<longrightarrow> state s = E_STOP \<and> state s' = IDLE)"
    by (rule impI) (rule loop_clears_only_on_exit)
  show ?thesis by (rule conjI [OF a conjI [OF b conjI [OF c exit_clears]]])
qed

text \<open>
  Instances: Idle with RequestCalibrate pending enters Calibrating and keeps the bit; a
  stop request received while Assisted leads to EmergencyStop with RequestStop set; the
  tick that resumes from EmergencyStop clears RequestStop and ends in Idle; the tick that
  resumes from Manual ends in Idle with RequestManual and RequestResume cleared and
  RequestStop kept; the tick from Calibrating ends in Idle with RequestCalibrate cleared.
\<close>

theorem requests_cleared_on_exit_only_witness:
  "(\<exists>s1. state_switch quiet (power_on\<lparr>user_req := R_CALIB\<rparr>) = Some s1 \<and> state s1 = CALIB
       \<and> user_req s1 = R_CALIB)
   \<and> (\<exists>s2. startup power_on
       \<and> run [quiet\<lparr>in_v := 1.5, in_serial := Some (99, 0, 4)\<rparr>, quiet\<lparr>in_v := 1.5\<rparr>] power_on
           = Some s2
       \<and> state s2 = E_STOP \<and> user_req s2 AND R_STOP \<noteq> 0)
   \<and> (\<exists>s'. loop quiet (power_on\<lparr>state := E_STOP, user_req := R_STOP OR R_RESUME\<rparr>) = Some s'
       \<and> user_req s' AND R_STOP = 0 \<and> state s' = IDLE)
   \<and> (\<exists>s'. loop quiet (power_on\<lparr>state := MANUAL, user_req := R_MANUAL OR R_RESUME OR R_STOP\<rparr>)
         = Some s'
       \<and> state s' = IDLE \<and> user_req s' = R_STOP)
   \<and> (\<exists>s'. loop quiet (power_on\<lparr>state := CALIB, user_req := R_CALIB OR R_STOP\<rparr>) = Some s'
       \<and> state s' = IDLE \<and> user_req s' = R_STOP)
   \<and> (\<exists>s'. loop quiet (power_on\<lparr>state := E_STOP, user_req := R_STOP OR R_RESUME OR R_CALIB\<rparr>)
         = Some s'
       \<and> state s' = IDLE \<and> user_req s' = R_CALIB)"
proof -
  let ?sa = "power_on\<lparr>user_req := R_CALIB\<rparr>"
  let ?is = "[quiet\<lparr>in_v := 1.5, in_serial := Some (99, 0, 4)\<rparr>, quiet\<lparr>in_v := 1.5\<rparr>]"
  let ?sc = "power_on\<lparr>state := E_STOP, user_req := R_STOP OR R_RESUME\<rparr>"
  let ?sm = "power_on\<lparr>state := MANUAL, user_req := R_MANUAL OR R_RESUME OR R_STOP\<rparr>"
  let ?sk = "power_on\<lparr>state := CALIB, user_req := R_CALIB OR R_STOP\<rparr>"
  let ?se = "power_on\<lparr>state := E_STOP, user_req := R_STOP OR R_RESUME OR R_CALIB\<rparr>"
  have "\<exists>s1. state_switch quiet ?sa = Some s1 \<and> state s1 = CALIB"
    by (simp add: tick_defs power_on_def quiet_def threshold_facts)
  then obtain s1 where a: "state_switch quiet ?sa = Some s1" "state s1 = CALIB" by blast
  from requests_cleared_on_exit_only [THEN conjunct1, of quiet ?sa s1] a
  have a': "user_req s1 = R_CALIB" by simp
  have st: "startup power_on" by (simp add: startup_def power_on_def)
  have "\<exists>s2. run ?is power_on = Some s2 \<and> state s2 = E_STOP"
    by (simp add: tick_defs power_on_def quiet_def threshold_facts)
  then obtain s2 where b: "run ?is power_on = Some s2" "state s2 = E_STOP" by blast
  from requests_cleared_on_exit_only [THEN conjunct2, THEN conjunct1, of power_on ?is s2] st b
  have b': "user_req s2 AND R_STOP \<noteq> 0" by (simp add: requests_held_def)
  have "\<exists>s'. loop quiet ?sc = Some s' \<and> user_req s' AND R_STOP = 0"
    by (simp add: tick_defs power_on_def quiet_def threshold_facts)
  then obtain s' where c: "loop quiet ?sc = Some s'" "user_req s' AND R_STOP = 0" by blast
  have "user_req ?sc AND R_STOP \<noteq> 0" by simp
  with requests_cleared_on_exit_only
    [THEN conjunct2, THEN conjunct2, THEN conjunct1, of quiet ?sc s'] c
  have c': "state s' = IDLE" by simp
  have n: "in_serial quiet = None" by (simp add: quiet_def)
  have m: "state ?sm = MANUAL \<and> user_req ?sm AND R_RESUME \<noteq> 0" by simp
  from requests_cleared_on_exit_only
    [THEN conjunct2, THEN conjunct2, THEN conjunct2, THEN conjunct2, THEN conjunct1,
      of ?sm quiet] m n
  have d: "\<exists>s'. loop quiet ?sm = Some s' \<and> state s' = IDLE \<and> user_req s' = R_STOP"
    by auto
  have k: "state ?sk = CALIB" by simp
  from requests_cleared_on_exit_only
    [THEN conjunct2, THEN conjunct2, THEN conjunct2, THEN conjunct1, of ?sk quiet] k n
  have e: "\<exists>s'. loop quiet ?sk = Some s' \<and> state s' = IDLE \<and> user_req s' = R_STOP"
    by auto
  have x: "state ?se = E_STOP \<and> user_req ?se AND R_RESUME \<noteq> 0" by simp
  from requests_cleared_on_exit_only
    [THEN conjunct2, THEN conjunct2, THEN conjunct2, THEN conjunct2, THEN conjunct2,
      of ?se quiet] x n
  have f: "\<exists>s'. loop quiet ?se = Some s' \<and> state s' = IDLE \<and> user_req s' = R_CALIB"
    by auto
  from a a' st b b' c c' have abc:
    "(\<exists>s1. state_switch quiet ?sa = Some s1 \<and> state s1 = CALIB \<and> user_req s1 = R_CALIB)
     \<and> (\<exists>s2. startup power_on \<and> run ?is power_on = Some s2 \<and> state s2 = E_STOP
          \<and> user_req s2 AND R_STOP \<noteq> 0)
     \<and> (\<exists>s'. loop quiet ?sc = Some s' \<and> user_req s' AND R_STOP = 0 \<and> state s' = IDLE)"
    by blast
  from abc d e f show ?thesis by simp
qed

end
